theory Spec2Isabelle
  imports Main "HOL-Library.Word" "HOL-Library.List_Lexorder" "HOL-Library.Sublist"
begin

unbundle bit_operations_syntax

section \<open>Bytes, constants and the library routines the program calls\<close>

text \<open>
  The program is the Go file \<open>pomelo.go\<close> (functions \<open>buildIndex\<close>, \<open>loadIndex\<close>,
  \<open>indexLookup\<close>) and \<open>web.go\<close> (the HTTP handlers). Go's \<open>[]byte\<close> is a list of
  8-bit words; \<open>uint\<close>, \<open>uint64\<close> and \<open>int\<close> values are natural numbers or integers,
  with the 64-bit truncation written out where the code shifts.
\<close>

type_synonym byte = "8 word"

definition bytes_of :: "string \<Rightarrow> byte list" where
  "bytes_of s = map of_char s"

definition maxLookup :: int where
  "maxLookup = 2048"

definition delimiter :: byte where
  "delimiter = 0"

definition tab :: byte where
  "tab = 9"

definition MaxVarintLen64 :: nat where
  "MaxVarintLen64 = 10"

text \<open>
  \<open>binary.PutUvarint(buf, x)\<close> of \<open>encoding/binary\<close>:
  \<^verbatim>\<open>i := 0; for x >= 0x80 { buf[i] = byte(x) | 0x80; x >>= 7; i++ }; buf[i] = byte(x); return i + 1\<close>.
  The model returns the updated buffer together with the count. Go panics on a write
  past the end of \<open>buf\<close>; a \<open>uint64\<close> needs at most ten bytes and every buffer the
  program passes has ten, so the write is always in range.
\<close>

function PutUvarint_loop :: "byte list \<Rightarrow> nat \<Rightarrow> nat \<Rightarrow> byte list \<times> nat" where
  "PutUvarint_loop buf i x =
     (if x \<ge> 0x80
      then PutUvarint_loop (buf[i := of_nat x OR 0x80]) (i + 1) (drop_bit 7 x)
      else (buf[i := of_nat x], i + 1))"
  by pat_completeness auto
termination
  by (relation "measure (\<lambda>(buf, i, x). x)") (auto simp: drop_bit_eq_div)

declare PutUvarint_loop.simps [simp del]

definition PutUvarint :: "byte list \<Rightarrow> nat \<Rightarrow> byte list \<times> nat" where
  "PutUvarint buf x = PutUvarint_loop buf 0 x"

text \<open>
  \<open>binary.Uvarint(buf)\<close>: the decoded value and the number of bytes read
  (\<open>0\<close> when \<open>buf\<close> ends early, negative on overflow). The accumulator is a
  \<open>uint64\<close>, so each step is reduced modulo \<open>2 ^ 64\<close>.
\<close>

fun Uvarint_loop :: "byte list \<Rightarrow> nat \<Rightarrow> nat \<Rightarrow> nat \<Rightarrow> nat \<times> int" where
  "Uvarint_loop [] i x s = (0, 0)"
| "Uvarint_loop (b # bs) i x s =
     (if i = MaxVarintLen64 then (0, - (int i + 1))
      else if b < 0x80 then
        (if i = MaxVarintLen64 - 1 \<and> b > 1 then (0, - (int i + 1))
         else ((x OR push_bit s (unat b)) mod 2 ^ 64, int i + 1))
      else Uvarint_loop bs (i + 1) ((x OR push_bit s (unat (b AND 0x7f))) mod 2 ^ 64) (s + 7))"

definition Uvarint :: "byte list \<Rightarrow> nat \<times> int" where
  "Uvarint buf = Uvarint_loop buf 0 0 0"

text \<open>
  \<open>strconv.ParseUint(s, 10, 32)\<close>: \<open>None\<close> stands for a non-nil error. With base 10
  given, every character must be a decimal digit (no sign, no underscore), the empty
  string is a syntax error, and a value above \<open>2 ^ 32 - 1\<close> is a range error.
\<close>

definition maxVal32 :: nat where
  "maxVal32 = 2 ^ 32 - 1"

fun ParseUint_loop :: "nat \<Rightarrow> byte list \<Rightarrow> nat option" where
  "ParseUint_loop n [] = Some n"
| "ParseUint_loop n (c # cs) =
     (if 0x30 \<le> c \<and> c \<le> 0x39
      then (let n1 = n * 10 + unat (c - 0x30)
            in if n1 > maxVal32 then None else ParseUint_loop n1 cs)
      else None)"

definition ParseUint :: "byte list \<Rightarrow> nat option" where
  "ParseUint s = (if s = [] then None else ParseUint_loop 0 s)"

text \<open>
  \<open>bytes.SplitN(line, "\t", 2)\<close>: the whole line when it has no tab, else the part
  before the first tab and everything after it.
\<close>

definition SplitN :: "byte list \<Rightarrow> byte list list" where
  "SplitN line =
     (if tab \<in> set line
      then [takeWhile (\<lambda>b. b \<noteq> tab) line, tl (dropWhile (\<lambda>b. b \<noteq> tab) line)]
      else [line])"

text \<open>\<open>bytes.Trim(s, "\x00")\<close>: delimiter bytes are removed at both ends only.\<close>

definition Trim :: "byte list \<Rightarrow> byte list" where
  "Trim s = rev (dropWhile (\<lambda>b. b = delimiter) (rev (dropWhile (\<lambda>b. b = delimiter) s)))"

section \<open>buildIndex: the scan loop\<close>

text \<open>
  The state of the loop of \<open>buildIndex\<close>: the output buffer, the ten-byte slot
  \<open>valBuf\<close> (allocated once, before the loop) and the counter. The Unicode normaliser
  \<open>norm.NFC.Bytes\<close> belongs to \<open>golang.org/x/text\<close> and is a parameter \<open>nfc\<close>.
  The lines are the tokens that \<open>bufio.Scanner\<close> yields.
\<close>

record build_state =
  buffer :: "byte list"
  valBuf :: "byte list"
  counter :: nat

definition build_init :: build_state where
  "build_init = \<lparr>buffer = [], valBuf = replicate MaxVarintLen64 0, counter = 0\<rparr>"

text \<open>
  The weight of a line as the loop body computes it: \<open>None\<close> is \<open>continue\<close>.
  A line without a tab gets weight 0 and is not compared with \<open>value\<close>.
\<close>

definition line_val :: "nat \<Rightarrow> byte list list \<Rightarrow> nat option" where
  "line_val value parts =
     (if length parts = 1 then Some 0
      else if length parts = 2 then
        (case ParseUint (parts ! 1) of
           None \<Rightarrow> None
         | Some v \<Rightarrow> if v < value then None else Some v)
      else None)"

definition build_step ::
  "(byte list \<Rightarrow> byte list) \<Rightarrow> nat \<Rightarrow> nat \<Rightarrow> build_state \<Rightarrow> byte list \<Rightarrow> build_state" where
  "build_step nfc len value st line =
     (let parts = SplitN line in
      case line_val value parts of
        None \<Rightarrow> st
      | Some val \<Rightarrow>
          if length (parts ! 0) > len then st
          else
            (let vb = fst (PutUvarint (valBuf st) val)
             in \<lparr>buffer = buffer st @ nfc (Trim (parts ! 0)) @ vb @ [delimiter],
                 valBuf = vb,
                 counter = counter st + 1\<rparr>))"

definition build_loop ::
  "(byte list \<Rightarrow> byte list) \<Rightarrow> nat \<Rightarrow> nat \<Rightarrow> build_state \<Rightarrow> byte list list \<Rightarrow> build_state" where
  "build_loop nfc len value st lines = foldl (build_step nfc len value) st lines"

definition build_lines ::
  "(byte list \<Rightarrow> byte list) \<Rightarrow> nat \<Rightarrow> nat \<Rightarrow> byte list list \<Rightarrow> build_state" where
  "build_lines nfc len value lines = build_loop nfc len value build_init lines"

text \<open>
  The rule of retention in the words of the specification, with the correction that a
  line without a tab is kept whatever the minimum is: the key is the text before the
  first tab, and the line is kept when the key is no longer than the maximum and either
  the line has no tab or the text after the tab is an unsigned 32-bit decimal number that
  is at least the minimum.
\<close>

definition key_text :: "byte list \<Rightarrow> byte list" where
  "key_text line = takeWhile (\<lambda>b. b \<noteq> tab) line"

definition weight_text :: "byte list \<Rightarrow> byte list" where
  "weight_text line = tl (dropWhile (\<lambda>b. b \<noteq> tab) line)"

definition decimal :: "byte list \<Rightarrow> nat" where
  "decimal s = foldl (\<lambda>a c. a * 10 + unat (c - 0x30)) 0 s"

definition is_number32 :: "byte list \<Rightarrow> bool" where
  "is_number32 s \<longleftrightarrow>
     s \<noteq> [] \<and> (\<forall>c \<in> set s. 0x30 \<le> c \<and> c \<le> 0x39) \<and> decimal s < 2 ^ 32"

definition survives :: "nat \<Rightarrow> nat \<Rightarrow> byte list \<Rightarrow> bool" where
  "survives maxLength minValue line \<longleftrightarrow>
     length (key_text line) \<le> maxLength \<and>
     (tab \<notin> set line \<or>
      is_number32 (weight_text line) \<and> minValue \<le> decimal (weight_text line))"

text \<open>The weight that a surviving line is stored with.\<close>

definition weight_of :: "byte list \<Rightarrow> nat" where
  "weight_of line = (if tab \<in> set line then decimal (weight_text line) else 0)"

text \<open>The lines of Scenario A, and two lines of which the second has no weight.\<close>

definition scenario_A :: "byte list list" where
  "scenario_A = [bytes_of ''alice'' @ [tab] @ bytes_of ''5000'',
                 bytes_of ''bob'' @ [tab] @ bytes_of ''500'',
                 bytes_of ''alice2'']"

definition alice_bob :: "byte list list" where
  "alice_bob = [bytes_of ''alice'' @ [tab] @ bytes_of ''5000'', bytes_of ''bob'']"


section \<open>The suffix array of the library\<close>

text \<open>
  \<open>suffixarray.Index\<close> of Go's standard library (\<open>index/suffixarray\<close>, imported by
  \<open>pomelo.go\<close>): the indexed bytes and the suffix array, the offsets \<open>0 .. len(data) - 1\<close>
  ordered by the suffix that starts there (\<open>bytes.Compare\<close>, the lexicographic order
  on unsigned bytes). \<open>New\<close> sorts the suffixes; the library's documentation fixes the
  result, not the sorting method.
\<close>

record Index =
  data :: "byte list"
  sa :: "nat list"

definition New :: "byte list \<Rightarrow> Index" where
  "New d = \<lparr>data = d, sa = sort_key (\<lambda>i. drop i d) [0..<length d]\<rparr>"

definition at :: "Index \<Rightarrow> nat \<Rightarrow> byte list" where
  "at x i = drop (sa x ! i) (data x)"

text \<open>
  \<open>sort.Search(n, f)\<close>:
  \<^verbatim>\<open>i, j := 0, n; for i < j { h := int(uint(i+j) >> 1); if !f(h) { i = h + 1 } else { j = h } }; return i\<close>.
\<close>

function Search_loop :: "(nat \<Rightarrow> bool) \<Rightarrow> nat \<Rightarrow> nat \<Rightarrow> nat" where
  "Search_loop f i j =
     (if i < j
      then (let h = (i + j) div 2
            in if \<not> f h then Search_loop f (h + 1) j else Search_loop f i h)
      else i)"
  by pat_completeness auto
termination
  by (relation "measure (\<lambda>(f, i, j). j - i)") auto

declare Search_loop.simps [simp del]

definition Search :: "nat \<Rightarrow> (nat \<Rightarrow> bool) \<Rightarrow> nat" where
  "Search n f = Search_loop f 0 n"

text \<open>
  \<open>lookupAll\<close>: two binary searches, for the first suffix that is not below \<open>s\<close> and,
  from there, for the first suffix that \<open>s\<close> is not a prefix of; the result is the
  slice \<open>sa[i:j]\<close>.
\<close>

definition lookupAll :: "Index \<Rightarrow> byte list \<Rightarrow> nat list" where
  "lookupAll x s =
     (let i = Search (length (sa x)) (\<lambda>i. s \<le> at x i);
          j = i + Search (length (sa x) - i) (\<lambda>j. \<not> prefix s (at x (j + i)))
      in take (j - i) (drop i (sa x)))"

text \<open>
  \<open>Lookup(s, n)\<close>: at most \<open>n\<close> of the offsets at which \<open>s\<close> occurs (all of them when
  \<open>n < 0\<close>), in suffix-array order; the result is nil when \<open>s\<close> is empty or \<open>n\<close> is 0:
  \<^verbatim>\<open>if len(s) > 0 && n != 0 { matches := x.lookupAll(s); count := matches.len();
       if n < 0 || count < n { n = count }; ... result[i] = matches[i] for i < n }\<close>.
\<close>

definition Lookup :: "Index \<Rightarrow> byte list \<Rightarrow> int \<Rightarrow> nat list" where
  "Lookup x s n =
     (if s \<noteq> [] \<and> n \<noteq> 0 then
        (let matches = lookupAll x s;
             count = int (length matches);
             n' = (if n < 0 \<or> count < n then count else n)
         in take (nat n') matches)
      else [])"

text \<open>
  The offsets at which a pattern occurs in a buffer, in increasing order. This is the
  specification's notion of the matches of a pattern, not part of the program.
\<close>

definition occurrences :: "byte list \<Rightarrow> byte list \<Rightarrow> nat list" where
  "occurrences d s = filter (\<lambda>i. prefix s (drop i d)) [0..<length d]"

section \<open>indexLookup\<close>

text \<open>Go's string is a sequence of bytes; \<open>string(b)\<close> and \<open>[]byte(s)\<close> copy it.\<close>

definition string_of :: "byte list \<Rightarrow> string" where
  "string_of b = map (\<lambda>c. char_of (unat c)) b"

record Item =
  Query :: string
  Value :: nat

text \<open>\<open>for ; start > 0 && indexData[start-1] != delimiter; start-- {}\<close>\<close>

fun scan_start :: "byte list \<Rightarrow> nat \<Rightarrow> nat" where
  "scan_start indexData 0 = 0"
| "scan_start indexData (Suc k) =
     (if indexData ! k \<noteq> delimiter then scan_start indexData k else Suc k)"

text \<open>\<open>for ; end < len(indexData) && indexData[end] != delimiter; end++ {}\<close>\<close>

function scan_end :: "byte list \<Rightarrow> nat \<Rightarrow> nat" where
  "scan_end indexData e =
     (if e < length indexData \<and> indexData ! e \<noteq> delimiter
      then scan_end indexData (e + 1) else e)"
  by pat_completeness auto
termination
  by (relation "measure (\<lambda>(indexData, e). length indexData - e)") auto

declare scan_end.simps [simp del]

text \<open>\<open>for ; end+1 < len(indexData) && indexData[end+1] == delimiter; end++ {}\<close>\<close>

function scan_rest :: "byte list \<Rightarrow> nat \<Rightarrow> nat" where
  "scan_rest indexData e =
     (if e + 1 < length indexData \<and> indexData ! (e + 1) = delimiter
      then scan_rest indexData (e + 1) else e)"
  by pat_completeness auto
termination
  by (relation "measure (\<lambda>(indexData, e). length indexData - e)") auto

declare scan_rest.simps [simp del]

text \<open>The slice expression \<open>b[lo:hi]\<close>.\<close>

definition slice :: "'a list \<Rightarrow> nat \<Rightarrow> nat \<Rightarrow> 'a list" where
  "slice b lo hi = take (hi - lo) (drop lo b)"

text \<open>
  The body of the loop over the offsets: the boundary \<open>end\<close> that the two forward scans
  reach, and the item, or \<open>None\<close> for \<open>continue\<close>. Both scans only move forward, so
  \<open>end - offset\<close> is never negative.
\<close>

definition find_end :: "byte list \<Rightarrow> nat \<Rightarrow> nat" where
  "find_end indexData offset = scan_rest indexData (scan_end indexData offset)"

definition lookup_item :: "byte list \<Rightarrow> nat \<Rightarrow> Item option" where
  "lookup_item indexData offset =
     (let start = scan_start indexData offset;
          e = find_end indexData offset
      in if e - offset < MaxVarintLen64 then None
         else Some \<lparr>Query = string_of (slice indexData start (e - MaxVarintLen64)),
                    Value = fst (Uvarint (slice indexData (e - MaxVarintLen64) e))\<rparr>)"

definition collect_items :: "byte list \<Rightarrow> Item list \<Rightarrow> nat list \<Rightarrow> Item list" where
  "collect_items indexData items offsets =
     foldl (\<lambda>items offset.
              case lookup_item indexData offset of
                None \<Rightarrow> items
              | Some item \<Rightarrow> items @ [item]) items offsets"

definition indexLookup :: "Index \<Rightarrow> string \<Rightarrow> Item list" where
  "indexLookup index search =
     collect_items (data index) [] (Lookup index (bytes_of search) maxLookup)"


section \<open>The persisted stream: Index.Write and Index.Read of the library\<close>

text \<open>
  \<open>buildIndex\<close> writes the file with \<open>saIndex.Write(dstFile)\<close> alone and \<open>loadIndex\<close>
  reads it with \<open>saIndexes[key].Read(file)\<close> alone; both belong to \<open>index/suffixarray\<close>.
  The library works through one buffer of \<open>bufSize\<close> bytes: \<open>writeInt\<close> puts a signed
  varint into its first ten bytes and writes those ten bytes; \<open>writeSlice\<close> packs as many
  entries as fit behind the first ten bytes as unsigned varints, puts the size of the
  block into the first ten bytes, and writes the block.
\<close>

definition bufSize :: nat where
  "bufSize = 16384"

text \<open>
  \<open>binary.PutVarint\<close>: \<open>ux := uint64(x) << 1; if x < 0 { ux = ^ux }\<close>, that is the
  zigzag code, and \<open>binary.Varint\<close>, its inverse.
\<close>

definition PutVarint :: "byte list \<Rightarrow> int \<Rightarrow> byte list \<times> nat" where
  "PutVarint buf x =
     PutUvarint buf ((if x < 0 then nat (- 2 * x - 1) else nat (2 * x)) mod 2 ^ 64)"

definition Varint :: "byte list \<Rightarrow> int \<times> int" where
  "Varint buf =
     (let (ux, n) = Uvarint buf;
          x = int (drop_bit 1 ux)
      in (if odd ux then - x - 1 else x, n))"

definition writeInt :: "byte list \<Rightarrow> nat \<Rightarrow> byte list \<times> byte list" where
  "writeInt buf x =
     (let buf' = fst (PutVarint buf (int x))
      in (buf', take MaxVarintLen64 buf'))"

text \<open>
  The loop of \<open>writeSlice\<close>:
  \<^verbatim>\<open>for ; n < m && p+binary.MaxVarintLen64 <= len(buf); n++ { p += binary.PutUvarint(buf[p:], uint64(data.get(n))) }\<close>.
\<close>

function writeSlice_loop :: "byte list \<Rightarrow> nat list \<Rightarrow> nat \<Rightarrow> nat \<Rightarrow> byte list \<times> nat \<times> nat" where
  "writeSlice_loop buf dat n p =
     (if n < length dat \<and> p + MaxVarintLen64 \<le> length buf
      then (let (buf', p') = PutUvarint_loop buf p (dat ! n)
            in writeSlice_loop buf' dat (n + 1) p')
      else (buf, n, p))"
  by pat_completeness auto
termination
  by (relation "measure (\<lambda>(buf, dat, n, p). length dat - n)") auto

declare writeSlice_loop.simps [simp del]

definition writeSlice :: "byte list \<Rightarrow> nat list \<Rightarrow> byte list \<times> nat \<times> byte list" where
  "writeSlice buf dat =
     (let (buf1, n, p) = writeSlice_loop buf dat 0 MaxVarintLen64;
          buf2 = fst (PutVarint buf1 (int p))
      in (buf2, n, take p buf2))"

text \<open>
  \<open>for sa.len() > 0 { n, err := writeSlice(w, buf, sa); ...; sa = sa.slice(n, sa.len()) }\<close>.
  A block that held no entry would make the loop run forever; \<open>None\<close> stands for
  that. Writing to the file is taken to succeed.
\<close>

function Write_loop :: "byte list \<Rightarrow> nat list \<Rightarrow> byte list option" where
  "Write_loop buf dat =
     (if dat = [] then Some []
      else (let (buf', n, out) = writeSlice buf dat
            in if n = 0 then None
               else map_option (\<lambda>rest. out @ rest) (Write_loop buf' (drop n dat))))"
  by pat_completeness auto
termination
  by (relation "measure (\<lambda>(buf, dat). length dat)") auto

declare Write_loop.simps [simp del]

definition Write :: "Index \<Rightarrow> byte list option" where
  "Write x =
     (let (buf, out) = writeInt (replicate bufSize 0) (length (data x))
      in map_option (\<lambda>rest. out @ data x @ rest) (Write_loop buf (sa x)))"

datatype error = ErrOpen | EOF | ErrUnexpectedEOF | ErrTooBig | Panic

text \<open>
  \<open>io.ReadFull(r, b)\<close> for a destination of \<open>n\<close> bytes: the bytes read, the rest of
  the stream, and \<open>io.EOF\<close> when nothing could be read, \<open>io.ErrUnexpectedEOF\<close>
  when the stream ends early.
\<close>

definition ReadFull :: "byte list \<Rightarrow> nat \<Rightarrow> byte list \<times> byte list \<times> error option" where
  "ReadFull r n =
     (if n \<le> length r then (take n r, drop n r, None)
      else (r, [], Some (if r = [] then EOF else ErrUnexpectedEOF)))"

text \<open>\<open>overwrite buf p bs\<close>: \<open>bs\<close> copied into \<open>buf\<close> from position \<open>p\<close>.\<close>

definition overwrite :: "byte list \<Rightarrow> nat \<Rightarrow> byte list \<Rightarrow> byte list" where
  "overwrite buf p bs = take p buf @ bs @ drop (p + length bs) buf"

definition readInt :: "byte list \<Rightarrow> byte list \<Rightarrow> int \<times> error option \<times> byte list \<times> byte list" where
  "readInt r buf =
     (let (got, r', err) = ReadFull r MaxVarintLen64;
          buf' = overwrite buf 0 got
      in (fst (Varint buf'), err, buf', r'))"

text \<open>
  The decoding loop of \<open>readSlice\<close>:
  \<^verbatim>\<open>for p := binary.MaxVarintLen64; p < size; n++ { x, w := binary.Uvarint(buf[p:]); data.set(n, int64(x)); p += w }\<close>.
  \<open>k\<close> is where the window \<open>data\<close> starts in the whole array. Setting an entry past
  the end of the array panics, and so does slicing \<open>buf\<close> at a negative \<open>p\<close>.
\<close>

function readSlice_loop ::
  "byte list \<Rightarrow> int \<Rightarrow> nat list \<Rightarrow> nat \<Rightarrow> nat \<Rightarrow> int \<Rightarrow> nat list \<times> nat \<times> error option" where
  "readSlice_loop buf sz arr k n p =
     (if p < sz then
        (if p < 0 then (arr, n, Some Panic)
         else (let (x, w) = Uvarint (drop (nat p) buf)
               in if k + n \<ge> length arr then (arr, n, Some Panic)
                  else readSlice_loop buf sz (arr[k + n := x]) k (n + 1) (p + w)))
      else (arr, n, None))"
  by pat_completeness auto
termination
  by (relation "measure (\<lambda>(buf, sz, arr, k, n, p). length arr - (k + n))") auto

declare readSlice_loop.simps [simp del]

text \<open>
  \<open>readSlice\<close>: the size of the block, then the block behind the first ten bytes of
  \<open>buf\<close> (\<open>buf[binary.MaxVarintLen64:size]\<close>, which panics when \<open>size\<close> is outside
  the buffer), then the entries.
\<close>

definition readSlice ::
  "byte list \<Rightarrow> byte list \<Rightarrow> nat list \<Rightarrow> nat \<Rightarrow> nat \<times> error option \<times> byte list \<times> byte list \<times> nat list" where
  "readSlice r buf arr k =
     (let (size64, err, buf1, r1) = readInt r buf
      in if err \<noteq> None then (0, err, buf1, r1, arr)
         else if size64 < 0 then (0, Some ErrTooBig, buf1, r1, arr)
         else if size64 < int MaxVarintLen64 \<or> int (length buf1) < size64
           then (0, Some Panic, buf1, r1, arr)
         else (let (got, r2, err2) = ReadFull r1 (nat size64 - MaxVarintLen64);
                   buf2 = overwrite buf1 MaxVarintLen64 got
               in if err2 \<noteq> None then (0, err2, buf2, r2, arr)
                  else (let (arr', n, err3) = readSlice_loop buf2 size64 arr k 0 (int MaxVarintLen64)
                        in (n, err3, buf2, r2, arr'))))"

text \<open>
  \<open>for sa.len() > 0 { n, err := readSlice(r, buf, sa); if err != nil { return err }; sa = sa.slice(n, sa.len()) }\<close>.
  Every round reads at least the ten bytes of a size, so the loop ends with the stream.
\<close>

function Read_loop :: "byte list \<Rightarrow> byte list \<Rightarrow> nat list \<Rightarrow> nat \<Rightarrow> nat list \<times> error option" where
  "Read_loop r buf arr k =
     (if k < length arr then
        (let (n, err, buf', r', arr') = readSlice r buf arr k
         in if err \<noteq> None then (arr', err)
            else Read_loop r' buf' arr' (k + n))
      else (arr, None))"
  by pat_completeness auto
termination
  by (relation "measure (\<lambda>(r, buf, arr, k). length r)")
     (auto simp: readSlice_def readInt_def ReadFull_def MaxVarintLen64_def Let_def
           split: if_splits prod.splits)

declare Read_loop.simps [simp del]

text \<open>
  \<open>Read\<close> on the empty index that \<open>loadIndex\<close> has just made: the length, fresh zeroed
  arrays of that length, the data, the entries. The result is the index as the call
  leaves it, also when it fails. Entries are kept as read; those of a written stream are
  offsets into the data.
\<close>

definition Read :: "byte list \<Rightarrow> Index \<times> error option" where
  "Read r =
     (let (n64, err, buf, r1) = readInt r (replicate bufSize 0)
      in if err \<noteq> None then (New [], err)
         else if n64 < 0 then (New [], Some ErrTooBig)
         else (let n = nat n64;
                   (got, r2, err2) = ReadFull r1 n;
                   d = overwrite (replicate n 0) 0 got
               in if err2 \<noteq> None then (\<lparr>data = d, sa = replicate n 0\<rparr>, err2)
                  else (let (arr, err3) = Read_loop r2 buf (replicate n 0) 0
                        in (\<lparr>data = d, sa = arr\<rparr>, err3))))"


section \<open>buildIndex and loadIndex\<close>

text \<open>
  \<open>buildIndex\<close> after the loop: \<open>saIndex := suffixarray.New(buffer.Bytes())\<close> and
  \<open>return counter, saIndex.Write(dstFile)\<close>. The result is the counter and the bytes
  of the destination file.
\<close>

definition buildIndex ::
  "(byte list \<Rightarrow> byte list) \<Rightarrow> byte list list \<Rightarrow> nat \<Rightarrow> nat \<Rightarrow> nat \<times> byte list option" where
  "buildIndex nfc lines len value =
     (let st = build_lines nfc len value lines
      in (counter st, Write (New (buffer st))))"

text \<open>
  The registry is the global \<open>saIndexes\<close>, a map from key to index. Files are a map from
  path to content; a path outside its domain cannot be opened.
\<close>

type_synonym registry = "string \<rightharpoonup> Index"

type_synonym files = "string \<rightharpoonup> byte list"

text \<open>\<open>fmt.Sprintf("%x", v)\<close> for a \<open>uint32\<close>: lower-case hexadecimal digits, no padding.\<close>

definition hex_digit :: "nat \<Rightarrow> char" where
  "hex_digit d = ''0123456789abcdef'' ! d"

function hex_loop :: "nat \<Rightarrow> string \<Rightarrow> string" where
  "hex_loop n acc =
     (if n < 16 then hex_digit n # acc
      else hex_loop (n div 16) (hex_digit (n mod 16) # acc))"
  by pat_completeness auto
termination
  by (relation "measure (\<lambda>(n, acc). n)") auto

declare hex_loop.simps [simp del]

definition Sprintf_x :: "32 word \<Rightarrow> string" where
  "Sprintf_x v = hex_loop (unat v) []"

text \<open>
  \<open>loadIndex(src, key)\<close>. The checksum \<open>crc32.NewIEEE\<close> of \<open>hash/crc32\<close> is the
  parameter \<open>crc\<close>. The empty index is stored under the key before the file is read,
  and \<open>Read\<close> then fills that stored index in place. The result is the new registry,
  the key returned and the error returned.
\<close>

definition loadIndex ::
  "(byte list \<Rightarrow> 32 word) \<Rightarrow> files \<Rightarrow> registry \<Rightarrow> string \<Rightarrow> string
     \<Rightarrow> registry \<times> string \<times> error option" where
  "loadIndex crc fs saIndexes src key =
     (case fs src of
        None \<Rightarrow> (saIndexes, [], Some ErrOpen)
      | Some content \<Rightarrow>
          (let key = (if key = [] then Sprintf_x (crc content) else key);
               saIndexes = saIndexes(key \<mapsto> New []);
               (index, err) = Read content
           in (saIndexes(key \<mapsto> index), key, err)))"

section \<open>The handlers of web.go\<close>

text \<open>
  What a handler reads of the request: the remote address, the route variable \<open>key\<close>,
  the values of the query parameter \<open>q\<close> in order, and the posted form (\<open>None\<close> when
  \<open>ParseForm\<close> fails) with its fields \<open>path\<close> and \<open>key\<close>. \<open>isLocal\<close> rests on the
  \<open>net\<close> package and is a parameter. The answer is the status and, for status 200,
  the data of the response.
\<close>

record request =
  RemoteAddr :: string
  vars_key :: string
  q :: "string list"
  PostForm :: "(string \<times> string) option"

datatype 'a response = StatusForbidden | StatusBadRequest | StatusOK 'a

text \<open>\<open>url.Values.Get\<close>: the first value of the parameter, the empty string when there is none.\<close>

definition Get :: "string list \<Rightarrow> string" where
  "Get vs = (case vs of [] \<Rightarrow> [] | v # _ \<Rightarrow> v)"

definition listHandler :: "registry \<Rightarrow> string set response" where
  "listHandler saIndexes = StatusOK (dom saIndexes)"

text \<open>
  \<open>queryHandler\<close> starts one lookup per value of \<open>q\<close> and merges what arrives on the
  channel with \<open>data[item.Query] = item.Value\<close>. The order of arrival is not fixed by the
  program; \<open>arrival\<close> stands for it.
\<close>

definition query_lookups :: "Index \<Rightarrow> string list \<Rightarrow> Item list list" where
  "query_lookups index qs = map (\<lambda>query. indexLookup index query) qs"

definition merge_items :: "(string \<rightharpoonup> nat) \<Rightarrow> Item list \<Rightarrow> (string \<rightharpoonup> nat)" where
  "merge_items dat items = foldl (\<lambda>d item. d(Query item \<mapsto> Value item)) dat items"

definition queryHandler ::
  "(Item list list \<Rightarrow> Item list list) \<Rightarrow> registry \<Rightarrow> request \<Rightarrow> (string \<rightharpoonup> nat) response" where
  "queryHandler arrival saIndexes r =
     (let indexKey = vars_key r
      in if indexKey = [] \<or> saIndexes indexKey = None then StatusBadRequest
         else if Get (q r) = [] then StatusBadRequest
         else StatusOK (foldl merge_items Map.empty
                          (arrival (query_lookups (the (saIndexes indexKey)) (q r)))))"

definition loadHandler ::
  "(string \<Rightarrow> bool) \<Rightarrow> (byte list \<Rightarrow> 32 word) \<Rightarrow> files \<Rightarrow> registry \<Rightarrow> request
     \<Rightarrow> registry \<times> string response" where
  "loadHandler isLocal crc fs saIndexes r =
     (if \<not> isLocal (RemoteAddr r) then (saIndexes, StatusForbidden)
      else case PostForm r of
             None \<Rightarrow> (saIndexes, StatusBadRequest)
           | Some (indexPath, indexKey) \<Rightarrow>
               (let (saIndexes', key, err) = loadIndex crc fs saIndexes indexPath indexKey
                in if err \<noteq> None then (saIndexes', StatusBadRequest)
                   else (saIndexes', StatusOK key)))"

definition unloadHandler ::
  "(string \<Rightarrow> bool) \<Rightarrow> registry \<Rightarrow> request \<Rightarrow> registry \<times> string response" where
  "unloadHandler isLocal saIndexes r =
     (if \<not> isLocal (RemoteAddr r) then (saIndexes, StatusForbidden)
      else (let indexKey = vars_key r
            in if indexKey = [] \<or> saIndexes indexKey = None then (saIndexes, StatusBadRequest)
               else (saIndexes(indexKey := None), StatusOK indexKey)))"

section \<open>Which lines are retained\<close>

lemma foldl_digits_mono:
  "n \<le> foldl (\<lambda>a c. a * 10 + unat (c - (0x30::byte))) n s"
proof (induction s arbitrary: n)
  case Nil
  show ?case by simp
next
  case (Cons c cs)
  have "n \<le> n * 10 + unat (c - 0x30)" by simp
  also have "\<dots> \<le> foldl (\<lambda>a c. a * 10 + unat (c - (0x30::byte))) (n * 10 + unat (c - 0x30)) cs"
    by (rule Cons.IH)
  finally show ?case by simp
qed

lemma ParseUint_loop_iff:
  "n \<le> maxVal32 \<Longrightarrow>
   ParseUint_loop n s = Some m \<longleftrightarrow>
     (\<forall>c \<in> set s. 0x30 \<le> c \<and> c \<le> 0x39) \<and>
     m = foldl (\<lambda>a c. a * 10 + unat (c - 0x30)) n s \<and> m \<le> maxVal32"
proof (induction s arbitrary: n)
  case Nil
  then show ?case by auto
next
  case (Cons c cs)
  let ?n1 = "n * 10 + unat (c - 0x30)"
  show ?case
  proof (cases "0x30 \<le> c \<and> c \<le> 0x39")
    case False
    then show ?thesis by auto
  next
    case digit: True
    show ?thesis
    proof (cases "?n1 > maxVal32")
      case True
      have "?n1 \<le> foldl (\<lambda>a c. a * 10 + unat (c - (0x30::byte))) ?n1 cs"
        by (rule foldl_digits_mono)
      with True digit show ?thesis by (auto simp: Let_def)
    next
      case False
      then have "?n1 \<le> maxVal32" by simp
      from Cons.IH [OF this] digit False show ?thesis by (simp add: Let_def)
    qed
  qed
qed

lemma ParseUint_iff: "ParseUint s = Some n \<longleftrightarrow> is_number32 s \<and> n = decimal s"
proof -
  have "(n \<le> maxVal32) = (n < 2 ^ 32)" by (auto simp: maxVal32_def)
  then show ?thesis
    using ParseUint_loop_iff [of 0 s n]
    by (auto simp: ParseUint_def is_number32_def decimal_def)
qed

lemma ParseUint_None_iff: "ParseUint s = None \<longleftrightarrow> \<not> is_number32 s"
  using ParseUint_iff [of s] by (cases "ParseUint s") auto

lemma SplitN_0: "SplitN line ! 0 = key_text line"
proof (cases "tab \<in> set line")
  case True
  then show ?thesis by (simp add: SplitN_def key_text_def)
next
  case False
  then have h: "takeWhile (\<lambda>b. b \<noteq> tab) line = line" by auto
  from False show ?thesis by (simp add: h SplitN_def key_text_def)
qed

lemma line_val_iff:
  "line_val value (SplitN line) = Some val \<longleftrightarrow>
     (tab \<notin> set line \<or> is_number32 (weight_text line) \<and> value \<le> decimal (weight_text line))
     \<and> val = weight_of line"
  by (auto simp: SplitN_def line_val_def weight_text_def weight_of_def ParseUint_iff
        ParseUint_None_iff split: option.splits)

lemma build_step_survives:
  "survives len value line \<Longrightarrow>
   build_step nfc len value st line =
     \<lparr>buffer = buffer st @ nfc (Trim (key_text line))
                @ fst (PutUvarint (valBuf st) (weight_of line)) @ [delimiter],
      valBuf = fst (PutUvarint (valBuf st) (weight_of line)),
      counter = counter st + 1\<rparr>"
proof -
  assume s: "survives len value line"
  then have "line_val value (SplitN line) = Some (weight_of line)"
    by (simp add: line_val_iff survives_def)
  moreover from s have "\<not> length (SplitN line ! 0) > len"
    by (simp add: SplitN_0 survives_def)
  ultimately show ?thesis
    by (simp add: build_step_def Let_def SplitN_0)
qed

lemma build_step_dropped:
  "\<not> survives len value line \<Longrightarrow> build_step nfc len value st line = st"
proof -
  assume s: "\<not> survives len value line"
  show ?thesis
  proof (cases "line_val value (SplitN line)")
    case None
    then show ?thesis by (simp add: build_step_def)
  next
    case (Some val)
    then have "tab \<notin> set line \<or>
        is_number32 (weight_text line) \<and> value \<le> decimal (weight_text line)"
      by (simp add: line_val_iff)
    with s have "length (SplitN line ! 0) > len"
      by (auto simp: survives_def SplitN_0)
    with Some show ?thesis by (simp add: build_step_def Let_def)
  qed
qed



section \<open>Rules for running the loops on concrete inputs\<close>

text \<open>
  Each loop gets its steps as conditional equations, so that the simplifier unfolds a
  loop only as far as the guard is decided.
\<close>

lemma replicate_num: "replicate (numeral k) x = x # replicate (pred_numeral k) x"
  by (simp add: numeral_eq_Suc)

lemma list_update_num: "(x # xs)[numeral k := v] = x # xs[pred_numeral k := v]"
  by (simp add: numeral_eq_Suc)

lemma scan_start_num:
  "scan_start d (numeral k) =
     (if d ! pred_numeral k \<noteq> delimiter then scan_start d (pred_numeral k) else numeral k)"
  by (simp add: numeral_eq_Suc)

lemma Search_loop_left:
  "i < j \<Longrightarrow> \<not> f ((i + j) div 2) \<Longrightarrow> Search_loop f i j = Search_loop f ((i + j) div 2 + 1) j"
  by (subst Search_loop.simps) (simp add: Let_def)

lemma Search_loop_right:
  "i < j \<Longrightarrow> f ((i + j) div 2) \<Longrightarrow> Search_loop f i j = Search_loop f i ((i + j) div 2)"
  by (subst Search_loop.simps) (simp add: Let_def)

lemma Search_loop_done: "\<not> i < j \<Longrightarrow> Search_loop f i j = i"
  by (subst Search_loop.simps) simp

lemma scan_end_step:
  "e < length d \<Longrightarrow> d ! e \<noteq> delimiter \<Longrightarrow> scan_end d e = scan_end d (e + 1)"
  by (subst scan_end.simps) simp

lemma scan_end_stop:
  "\<not> (e < length d \<and> d ! e \<noteq> delimiter) \<Longrightarrow> scan_end d e = e"
  by (subst scan_end.simps) auto

lemma scan_rest_step:
  "e + 1 < length d \<Longrightarrow> d ! (e + 1) = delimiter \<Longrightarrow> scan_rest d e = scan_rest d (e + 1)"
  by (subst scan_rest.simps) simp

lemma scan_rest_stop:
  "\<not> (e + 1 < length d \<and> d ! (e + 1) = delimiter) \<Longrightarrow> scan_rest d e = e"
  by (subst scan_rest.simps) auto

lemma PutUvarint_loop_step:
  "x \<ge> 0x80 \<Longrightarrow>
   PutUvarint_loop buf i x = PutUvarint_loop (buf[i := of_nat x OR 0x80]) (i + 1) (drop_bit 7 x)"
  by (subst PutUvarint_loop.simps) simp

lemma PutUvarint_loop_stop:
  "\<not> x \<ge> 0x80 \<Longrightarrow> PutUvarint_loop buf i x = (buf[i := of_nat x], i + 1)"
  by (subst PutUvarint_loop.simps) simp

lemmas build_eval = build_lines_def build_loop_def build_init_def build_step_def SplitN_def
  bytes_of_def tab_def delimiter_def line_val_def ParseUint_def maxVal32_def PutUvarint_def
  PutUvarint_loop_step PutUvarint_loop_stop MaxVarintLen64_def Let_def Trim_def
  replicate_num list_update_num

lemmas lookup_eval = indexLookup_def Lookup_def lookupAll_def Search_def
  Search_loop_left Search_loop_right Search_loop_done
  at_def maxLookup_def collect_items_def lookup_item_def find_end_def
  scan_end_step scan_end_stop scan_rest_step scan_rest_stop
  scan_start_num slice_def string_of_def char_of_def bit_Suc_0_iff Uvarint_def bytes_of_def
  delimiter_def MaxVarintLen64_def Let_def

lemma buffer_alice_bob: "buffer (build_lines id 120 1000 alice_bob) =
   [97, 108, 105, 99, 101, 136, 39, 0, 0, 0, 0, 0, 0, 0, 0, 0, 98, 111, 98, 0, 39, 0, 0, 0, 0, 0, 0, 0, 0, 0]"
  by (simp add: build_eval alice_bob_def)

lemma buffer_scenario_A: "buffer (build_lines id 120 1000 scenario_A) =
   [97, 108, 105, 99, 101, 136, 39, 0, 0, 0, 0, 0, 0, 0, 0, 0, 97, 108, 105,
    99, 101, 50, 0, 39, 0, 0, 0, 0, 0, 0, 0, 0, 0]"
  by (simp add: build_eval scenario_A_def)

section \<open>Claim C1: retention\<close>



text \<open>The amended rule at the lines of Scenario A.\<close>

lemmas survives_eval = survives_def key_text_def weight_text_def is_number32_def decimal_def
  bytes_of_def tab_def



section \<open>Claim C2: a retained record that lookup does not find\<close>

text \<open>
  Claim C2 at the lines \<open>alice\t5000\<close>, \<open>bob\<close> (\<open>maxLength = 120\<close>,
  \<open>minValue = 1000\<close>): both lines are retained, \<open>bob\<close> with weight 0. The slot of
  \<open>bob\<close> is \<open>00 27 00 \<dots>\<close>, the second byte being left over from 5000, so the forward
  scan from the match stops at the first byte of the slot, fewer than ten bytes after
  the match, and the match is skipped: the lookup of \<open>bob\<close> returns no item.
\<close>

theorem lookup_bob_empty:
  "fst (buildIndex id alice_bob 120 1000) = 2 \<and>
   indexLookup (New (buffer (build_lines id 120 1000 alice_bob))) ''bob'' = []"
proof -
  have "counter (build_lines id 120 1000 alice_bob) = 2"
    by (simp add: build_eval alice_bob_def)
  moreover have "indexLookup (New (buffer (build_lines id 120 1000 alice_bob))) ''bob'' = []"
    unfolding buffer_alice_bob by (simp add: New_def lookup_eval)
  ultimately show ?thesis by (simp add: buildIndex_def Let_def)
qed

section \<open>Claims C3, C6 and C7: loading and the registry\<close>

lemma loadIndex_key:
  "fs src = Some content \<Longrightarrow>
   fst (snd (loadIndex crc fs saIndexes src key)) =
     (if key = [] then Sprintf_x (crc content) else key)"
  by (simp add: loadIndex_def Let_def split: prod.splits)

lemma loadIndex_registry:
  "fs src = Some content \<Longrightarrow>
   fst (loadIndex crc fs saIndexes src key) =
     saIndexes((if key = [] then Sprintf_x (crc content) else key) \<mapsto> fst (Read content))"
  by (simp add: loadIndex_def Let_def split: prod.splits)

lemma loadIndex_error:
  "fs src = Some content \<Longrightarrow>
   snd (snd (loadIndex crc fs saIndexes src key)) = snd (Read content)"
  by (simp add: loadIndex_def Let_def split: prod.splits)

lemma loadIndex_unreadable:
  "fs src = None \<Longrightarrow> loadIndex crc fs saIndexes src key = (saIndexes, [], Some ErrOpen)"
  by (simp add: loadIndex_def)

lemma Read_empty: "Read [] = (New [], Some EOF)"
  by (simp add: Read_def readInt_def ReadFull_def MaxVarintLen64_def Let_def)

text \<open>
  Claim C3 at an empty file loaded under the key \<open>k\<close>: \<open>loadIndex\<close> returns the error
  \<open>io.EOF\<close>, and the registry has changed all the same. Where \<open>k\<close> held an index over
  the bytes 1, 2, 3 it now holds the empty index; where \<open>k\<close> was absent it is now present.
\<close>

theorem failed_load_installs:
  "loadIndex (\<lambda>c. 0) (Map.empty(''/tmp/bad'' \<mapsto> [])) (Map.empty(''k'' \<mapsto> New [1, 2, 3])) ''/tmp/bad'' ''k''
     = (Map.empty(''k'' \<mapsto> New []), ''k'', Some EOF) \<and>
   loadIndex (\<lambda>c. 0) (Map.empty(''/tmp/bad'' \<mapsto> [])) Map.empty ''/tmp/bad'' ''k''
     = (Map.empty(''k'' \<mapsto> New []), ''k'', Some EOF)"
  by (simp add: loadIndex_def Read_empty Let_def)

text \<open>
  Claim C6: a load or unload request whose remote address is not local is answered with
  status 403 (Forbidden) and leaves the registry as it was.
\<close>

theorem untrusted_forbidden:
  "\<not> isLocal (RemoteAddr r) \<Longrightarrow>
   loadHandler isLocal crc fs saIndexes r = (saIndexes, StatusForbidden) \<and>
   unloadHandler isLocal saIndexes r = (saIndexes, StatusForbidden)"
  by (simp add: loadHandler_def unloadHandler_def)

theorem untrusted_forbidden_witness:
  "\<not> (\<lambda>a. a = ''127.0.0.1:4000'') ''10.0.0.7:4000'' \<and>
   loadHandler (\<lambda>a. a = ''127.0.0.1:4000'') (\<lambda>c. 0) (Map.empty(''/tmp/x'' \<mapsto> []))
      (Map.empty(''a'' \<mapsto> New []))
      \<lparr>RemoteAddr = ''10.0.0.7:4000'', vars_key = ''a'', q = [], PostForm = Some (''/tmp/x'', ''b'')\<rparr>
     = (Map.empty(''a'' \<mapsto> New []), StatusForbidden) \<and>
   unloadHandler (\<lambda>a. a = ''127.0.0.1:4000'') (Map.empty(''a'' \<mapsto> New []))
      \<lparr>RemoteAddr = ''10.0.0.7:4000'', vars_key = ''a'', q = [], PostForm = Some (''/tmp/x'', ''b'')\<rparr>
     = (Map.empty(''a'' \<mapsto> New []), StatusForbidden)"
  using untrusted_forbidden [of "\<lambda>a. a = ''127.0.0.1:4000''"
      "\<lparr>RemoteAddr = ''10.0.0.7:4000'', vars_key = ''a'', q = [], PostForm = Some (''/tmp/x'', ''b'')\<rparr>"
      "\<lambda>c. 0" "Map.empty(''/tmp/x'' \<mapsto> [])" "Map.empty(''a'' \<mapsto> New [])"]
  by simp

text \<open>
  Claim C7: when no key is given, the key that \<open>loadIndex\<close> returns is the 32-bit
  checksum of the file content printed in hexadecimal; it depends on the content alone,
  so two loads of the same content, from any path and into any registry, return the
  same key.
\<close>

theorem derived_key_deterministic:
  "fs1 src1 = Some content \<Longrightarrow> fs2 src2 = Some content \<Longrightarrow>
   fst (snd (loadIndex crc fs1 saIndexes1 src1 [])) = Sprintf_x (crc content) \<and>
   fst (snd (loadIndex crc fs2 saIndexes2 src2 [])) =
     fst (snd (loadIndex crc fs1 saIndexes1 src1 []))"
  by (simp add: loadIndex_key)

theorem derived_key_deterministic_witness:
  "(Map.empty(''/a'' \<mapsto> [1, 2])) ''/a'' = Some [1, 2 :: byte] \<and>
   (Map.empty(''/b'' \<mapsto> [1, 2])) ''/b'' = Some [1, 2 :: byte] \<and>
   fst (snd (loadIndex (\<lambda>c. 0xBEEF) (Map.empty(''/a'' \<mapsto> [1, 2])) Map.empty ''/a'' [])) = ''beef'' \<and>
   fst (snd (loadIndex (\<lambda>c. 0xBEEF) (Map.empty(''/b'' \<mapsto> [1, 2])) (Map.empty(''k'' \<mapsto> New [])) ''/b'' []))
     = fst (snd (loadIndex (\<lambda>c. 0xBEEF) (Map.empty(''/a'' \<mapsto> [1, 2])) Map.empty ''/a'' []))"
proof -
  have h: "Sprintf_x 0xBEEF = ''beef''"
    by (simp add: Sprintf_x_def hex_loop.simps hex_digit_def)
  from derived_key_deterministic [where ?fs1.0 = "Map.empty(''/a'' \<mapsto> [1, 2])" and ?src1.0 = "''/a''"
      and content = "[1, 2]" and ?fs2.0 = "Map.empty(''/b'' \<mapsto> [1, 2])" and ?src2.0 = "''/b''"
      and crc = "\<lambda>c. 0xBEEF" and ?saIndexes1.0 = Map.empty
      and ?saIndexes2.0 = "Map.empty(''k'' \<mapsto> New [])"] h
  show ?thesis by simp
qed


section \<open>Claim C10: what the query handler validates\<close>

lemma Lookup_empty_pattern: "Lookup x [] n = []"
  by (simp add: Lookup_def)

lemma indexLookup_empty_pattern: "indexLookup index [] = []"
  by (simp add: indexLookup_def bytes_of_def Lookup_empty_pattern collect_items_def)

text \<open>
  Claim C10, as stated, fails in its last part: on the index of Scenario A, whose buffer
  has 33 offsets, the empty pattern is looked up with no offset at all, not with every
  offset, because \<open>Lookup\<close> returns nil for an empty pattern.
\<close>

theorem empty_pattern_matches_nothing:
  "length (buffer (build_lines id 120 1000 scenario_A)) = 33 \<and>
   Lookup (New (buffer (build_lines id 120 1000 scenario_A))) (bytes_of '''') maxLookup = [] \<and>
   indexLookup (New (buffer (build_lines id 120 1000 scenario_A))) '''' = []"
  by (simp add: buffer_scenario_A indexLookup_empty_pattern bytes_of_def Lookup_empty_pattern)

text \<open>
  Claim C10, amended: \<open>queryHandler\<close> answers 400 (Bad Request) exactly when the index
  key is empty or unknown or the first value of \<open>q\<close> is empty (or \<open>q\<close> is absent);
  otherwise every value of \<open>q\<close>, empty or not, is looked up, and the lookup of an empty
  value finds nothing.
\<close>

theorem query_validation:
  "(queryHandler arrival saIndexes r = StatusBadRequest \<longleftrightarrow>
      vars_key r = [] \<or> saIndexes (vars_key r) = None \<or> Get (q r) = []) \<and>
   (vars_key r \<noteq> [] \<and> saIndexes (vars_key r) = Some index \<and> Get (q r) \<noteq> [] \<longrightarrow>
      queryHandler arrival saIndexes r =
        StatusOK (foldl merge_items Map.empty (arrival (map (indexLookup index) (q r))))) \<and>
   indexLookup index [] = []"
  by (auto simp: queryHandler_def Let_def query_lookups_def indexLookup_empty_pattern)

lemma lookup_ali:
  "indexLookup (New (buffer (build_lines id 120 1000 scenario_A))) ''ali'' =
     [\<lparr>Query = ''alice'', Value = 5000\<rparr>]"
  unfolding buffer_scenario_A by (simp add: New_def lookup_eval)

theorem query_validation_witness:
  "queryHandler id (Map.empty(''a'' \<mapsto> New (buffer (build_lines id 120 1000 scenario_A))))
      \<lparr>RemoteAddr = ''10.0.0.7:4000'', vars_key = ''a'', q = [''ali'', ''''], PostForm = None\<rparr>
     = StatusOK (Map.empty(''alice'' \<mapsto> 5000)) \<and>
   queryHandler id (Map.empty(''a'' \<mapsto> New (buffer (build_lines id 120 1000 scenario_A))))
      \<lparr>RemoteAddr = ''10.0.0.7:4000'', vars_key = ''a'', q = ['''', ''ali''], PostForm = None\<rparr>
     = StatusBadRequest"
  using query_validation [of id "Map.empty(''a'' \<mapsto> New (buffer (build_lines id 120 1000 scenario_A)))"
      "\<lparr>RemoteAddr = ''10.0.0.7:4000'', vars_key = ''a'', q = [''ali'', ''''], PostForm = None\<rparr>"
      "New (buffer (build_lines id 120 1000 scenario_A))"]
    query_validation [of id "Map.empty(''a'' \<mapsto> New (buffer (build_lines id 120 1000 scenario_A)))"
      "\<lparr>RemoteAddr = ''10.0.0.7:4000'', vars_key = ''a'', q = ['''', ''ali''], PostForm = None\<rparr>"
      "New (buffer (build_lines id 120 1000 scenario_A))"]
  by (simp add: Get_def lookup_ali merge_items_def)


section \<open>Claim C9: the weight slot\<close>

lemma byte_cont_ge: "\<not> (of_nat x OR 0x80 :: byte) < 0x80"
proof -
  have "(0x80 :: byte) \<le> 0x80 OR of_nat x" by (rule le_word_or2)
  then show ?thesis by (simp add: or.commute not_less)
qed

lemma byte_cont_low: "unat ((of_nat x OR 0x80 :: byte) AND 0x7f) = take_bit 7 x"
proof -
  have m: "(0x7f :: byte) = mask 7" by (simp add: mask_numeral)
  have "(of_nat x OR 0x80 :: byte) AND 0x7f = of_nat x AND 0x7f OR 0x80 AND 0x7f"
    by (rule word_ao_dist)
  also have "\<dots> = of_nat x AND 0x7f" by simp
  also have "\<dots> = take_bit 7 (of_nat x)" by (simp only: m take_bit_eq_mask)
  finally have "unat ((of_nat x OR 0x80 :: byte) AND 0x7f) = unat (take_bit 7 (of_nat x :: byte))"
    by simp
  also have "\<dots> = take_bit 7 (unat (of_nat x :: byte))"
    by (rule unsigned_take_bit_eq)
  also have "unat (of_nat x :: byte) = take_bit 8 x"
    by (simp add: unat_of_nat take_bit_eq_mod)
  also have "take_bit 7 (take_bit 8 x) = take_bit 7 x" by simp
  finally show ?thesis .
qed

lemma acc_step:
  "take_bit 64 (take_bit 64 (acc OR push_bit s (take_bit 7 x)) OR push_bit (s + 7) (drop_bit 7 x))
     = take_bit 64 (acc OR push_bit s (x::nat))"
proof (rule bit_eqI)
  fix n
  show "bit (take_bit 64 (take_bit 64 (acc OR push_bit s (take_bit 7 x)) OR push_bit (s + 7) (drop_bit 7 x))) n
     = bit (take_bit 64 (acc OR push_bit s x)) n"
  proof (cases "s + 7 \<le> n")
    case True
    then have "7 + (n - (s + 7)) = n - s" by arith
    with True show ?thesis by (auto simp: bit_simps)
  next
    case False
    then show ?thesis by (auto simp: bit_simps)
  qed
qed

lemma byte_last: "x < 0x80 \<Longrightarrow> unat (of_nat x :: byte) = x"
  by (simp add: unat_of_nat)

lemma byte_last_lt: "x < 0x80 \<Longrightarrow> (of_nat x :: byte) < 0x80"
  by (simp add: word_less_nat_alt unat_of_nat)

lemma byte_last_le1: "x < 2 \<Longrightarrow> \<not> (of_nat x :: byte) > 1"
  by (simp add: word_less_nat_alt unat_of_nat)

lemma length_PutUvarint_loop: "length (fst (PutUvarint_loop buf i x)) = length buf"
proof (induction buf i x rule: PutUvarint_loop.induct)
  case (1 buf i x)
  show ?case
  proof (cases "x \<ge> 0x80")
    case True
    with 1 show ?thesis by (simp add: PutUvarint_loop_step)
  next
    case False
    then show ?thesis by (simp add: PutUvarint_loop_stop)
  qed
qed

lemma snd_PutUvarint_loop_gt: "i < snd (PutUvarint_loop buf i x)"
proof (induction buf i x rule: PutUvarint_loop.induct)
  case (1 buf i x)
  show ?case
  proof (cases "x \<ge> 0x80")
    case True
    with 1 have "i + 1 < snd (PutUvarint_loop (buf[i := of_nat x OR 0x80]) (i + 1) (drop_bit 7 x))"
      by simp
    with True show ?thesis by (simp add: PutUvarint_loop_step)
  next
    case False
    then show ?thesis by (simp add: PutUvarint_loop_stop)
  qed
qed

lemma snd_PutUvarint_loop_buf: "snd (PutUvarint_loop buf i x) = snd (PutUvarint_loop buf' i x)"
proof (induction buf i x arbitrary: buf' rule: PutUvarint_loop.induct)
  case (1 buf i x)
  show ?case
  proof (cases "x \<ge> 0x80")
    case True
    with 1 [of "buf'[i := of_nat x OR 0x80]"] show ?thesis by (simp add: PutUvarint_loop_step)
  next
    case False
    then show ?thesis by (simp add: PutUvarint_loop_stop)
  qed
qed

lemma nth_PutUvarint_loop_before:
  "j < i \<Longrightarrow> fst (PutUvarint_loop buf i x) ! j = buf ! j"
proof (induction buf i x rule: PutUvarint_loop.induct)
  case (1 buf i x)
  show ?case
  proof (cases "x \<ge> 0x80")
    case True
    with 1 show ?thesis by (simp add: PutUvarint_loop_step)
  next
    case False
    with 1(2) show ?thesis by (simp add: PutUvarint_loop_stop)
  qed
qed

lemma drop_PutUvarint_loop_after:
  "snd (PutUvarint_loop buf i x) \<le> k \<Longrightarrow> drop k (fst (PutUvarint_loop buf i x)) = drop k buf"
proof (induction buf i x rule: PutUvarint_loop.induct)
  case (1 buf i x)
  show ?case
  proof (cases "x \<ge> 0x80")
    case True
    from snd_PutUvarint_loop_gt [of "i + 1" "buf[i := of_nat x OR 0x80]" "drop_bit 7 x"] 1(2) True
    have "i < k" by (simp add: PutUvarint_loop_step)
    with 1 True show ?thesis by (simp add: PutUvarint_loop_step)
  next
    case False
    with 1(2) show ?thesis by (simp add: PutUvarint_loop_stop)
  qed
qed
lemma snd_PutUvarint_loop_le:
  "i \<le> 9 \<Longrightarrow> x < 2 ^ (64 - 7 * i) \<Longrightarrow> snd (PutUvarint_loop buf i x) \<le> 10"
proof (induction buf i x rule: PutUvarint_loop.induct)
  case (1 buf i x)
  show ?case
  proof (cases "x \<ge> 0x80")
    case True
    have i8: "i \<le> 8"
    proof (rule ccontr)
      assume "\<not> i \<le> 8"
      with 1(2) have "i = 9" by simp
      with 1(3) have "x < 2" by simp
      with True show False by simp
    qed
    have "drop_bit 7 x < 2 ^ (64 - 7 * (i + 1))"
    proof -
      from i8 have "(64 - 7 * i) = (64 - 7 * (i + 1)) + 7" by arith
      then have "(2::nat) ^ (64 - 7 * i) = 2 ^ (64 - 7 * (i + 1)) * 2 ^ 7"
        by (simp only: power_add)
      with 1(3) have "x < 2 ^ (64 - 7 * (i + 1)) * 2 ^ 7" by (simp only:)
      then have "x div 2 ^ 7 < 2 ^ (64 - 7 * (i + 1))"
        by (rule less_mult_imp_div_less)
      then show ?thesis by (simp only: drop_bit_eq_div)
    qed
    with 1(1) [OF True] i8 True show ?thesis by (simp add: PutUvarint_loop_step)
  next
    case False
    with 1(2) show ?thesis by (simp add: PutUvarint_loop_stop)
  qed
qed

lemma Uvarint_PutUvarint_loop:
  "i \<le> 9 \<Longrightarrow> x < 2 ^ (64 - 7 * i) \<Longrightarrow> snd (PutUvarint_loop buf i x) \<le> length buf \<Longrightarrow>
   Uvarint_loop (drop i (fst (PutUvarint_loop buf i x))) i acc (7 * i) =
     (take_bit 64 (acc OR push_bit (7 * i) x), int (snd (PutUvarint_loop buf i x)))"
proof (induction buf i x arbitrary: acc rule: PutUvarint_loop.induct)
  case (1 buf i x)
  let ?r = "PutUvarint_loop buf i x"
  from snd_PutUvarint_loop_gt [of i buf x] 1(4) have il: "i < length (fst ?r)"
    by (simp add: length_PutUvarint_loop)
  then have d: "drop i (fst ?r) = fst ?r ! i # drop (i + 1) (fst ?r)"
    by (simp add: Cons_nth_drop_Suc)
  show ?case
  proof (cases "x \<ge> 0x80")
    case True
    let ?b = "of_nat x OR 0x80 :: byte"
    let ?buf' = "buf[i := ?b]"
    have r: "?r = PutUvarint_loop ?buf' (i + 1) (drop_bit 7 x)"
      using True by (rule PutUvarint_loop_step)
    have i8: "i \<le> 8"
    proof (rule ccontr)
      assume "\<not> i \<le> 8"
      with 1(2) have "i = 9" by simp
      with 1(3) have "x < 2" by simp
      with True show False by simp
    qed
    have x': "drop_bit 7 x < 2 ^ (64 - 7 * (i + 1))"
    proof -
      from i8 have "(64 - 7 * i) = (64 - 7 * (i + 1)) + 7" by arith
      then have "(2::nat) ^ (64 - 7 * i) = 2 ^ (64 - 7 * (i + 1)) * 2 ^ 7"
        by (simp only: power_add)
      with 1(3) have "x < 2 ^ (64 - 7 * (i + 1)) * 2 ^ 7" by (simp only:)
      then have "x div 2 ^ 7 < 2 ^ (64 - 7 * (i + 1))"
        by (rule less_mult_imp_div_less)
      then show ?thesis by (simp only: drop_bit_eq_div)
    qed
    from il have il': "i < length buf" by (simp add: length_PutUvarint_loop)
    have b: "fst ?r ! i = ?b"
      unfolding r using il' by (simp add: nth_PutUvarint_loop_before)
    have len: "snd (PutUvarint_loop ?buf' (i + 1) (drop_bit 7 x)) \<le> length ?buf'"
      using 1(4) r by simp
    from i8 have i9: "i + 1 \<le> 9" by simp
    have IH: "Uvarint_loop (drop (i + 1) (fst ?r)) (i + 1)
        (take_bit 64 (acc OR push_bit (7 * i) (take_bit 7 x))) (7 * (i + 1)) =
       (take_bit 64 (take_bit 64 (acc OR push_bit (7 * i) (take_bit 7 x))
           OR push_bit (7 * (i + 1)) (drop_bit 7 x)), int (snd ?r))"
      unfolding r by (rule 1(1) [OF True i9 x' len])
    have s7: "7 * (i + 1) = 7 * i + 7" by simp
    from i8 have ne: "i \<noteq> MaxVarintLen64" by (simp add: MaxVarintLen64_def)
    have "Uvarint_loop (drop i (fst ?r)) i acc (7 * i) =
        Uvarint_loop (drop (i + 1) (fst ?r)) (i + 1)
          (take_bit 64 (acc OR push_bit (7 * i) (take_bit 7 x))) (7 * i + 7)"
      unfolding d b using ne by (simp add: byte_cont_ge byte_cont_low take_bit_eq_mod)
    also have "\<dots> = (take_bit 64 (acc OR push_bit (7 * i) x), int (snd ?r))"
      using IH unfolding s7 by (simp only: acc_step)
    finally show ?thesis .
  next
    case False
    then have lt: "x < 0x80" by simp
    have r: "?r = (buf[i := of_nat x], i + 1)"
      using False by (rule PutUvarint_loop_stop)
    from il have il': "i < length buf" by (simp add: length_PutUvarint_loop)
    have b: "fst ?r ! i = of_nat x" unfolding r using il' by simp
    from 1(2) have ne: "i \<noteq> MaxVarintLen64" by (simp add: MaxVarintLen64_def)
    have ov: "\<not> (i = MaxVarintLen64 - 1 \<and> (of_nat x :: byte) > 1)"
    proof
      assume a: "i = MaxVarintLen64 - 1 \<and> (of_nat x :: byte) > 1"
      then have "i = 9" by (simp add: MaxVarintLen64_def)
      with 1(3) have "x < 2" by simp
      with a byte_last_le1 show False by blast
    qed
    have "Uvarint_loop (drop i (fst ?r)) i acc (7 * i) =
        ((acc OR push_bit (7 * i) (unat (of_nat x :: byte))) mod 2 ^ 64, int i + 1)"
      unfolding d b using ne ov byte_last_lt [OF lt] by simp
    also have "\<dots> = (take_bit 64 (acc OR push_bit (7 * i) x), int (snd ?r))"
      unfolding r by (simp add: byte_last [OF lt] take_bit_eq_mod)
    finally show ?thesis .
  qed
qed

lemma Uvarint_PutUvarint:
  "x < 2 ^ 64 \<Longrightarrow> length buf = MaxVarintLen64 \<Longrightarrow>
   Uvarint (fst (PutUvarint buf x)) = (x, int (snd (PutUvarint buf x)))"
proof -
  assume x: "x < 2 ^ 64" and l: "length buf = MaxVarintLen64"
  from x have x0: "x < 2 ^ (64 - 7 * 0)" by simp
  from snd_PutUvarint_loop_le [OF _ x0, of buf] l
  have le: "snd (PutUvarint_loop buf 0 x) \<le> length buf" by (simp add: MaxVarintLen64_def)
  from Uvarint_PutUvarint_loop [OF _ x0 le, of 0] x
  show ?thesis by (simp add: Uvarint_def PutUvarint_def take_bit_eq_mod)
qed
text \<open>The slot keeps its length, and the scans of \<open>indexLookup\<close> stay inside the buffer.\<close>

lemma weight_of_bound: "survives len value line \<Longrightarrow> weight_of line < 2 ^ 32"
  by (auto simp: survives_def weight_of_def is_number32_def)

lemma valBuf_length_step:
  "length (valBuf (build_step nfc len value st line)) = length (valBuf st)"
proof (cases "survives len value line")
  case True
  then show ?thesis
    by (simp add: build_step_survives PutUvarint_def length_PutUvarint_loop)
next
  case False
  then show ?thesis by (simp add: build_step_dropped)
qed

lemma valBuf_length_loop:
  "length (valBuf (build_loop nfc len value st lines)) = length (valBuf st)"
  unfolding build_loop_def
  by (induction lines arbitrary: st) (simp_all add: valBuf_length_step)

lemma valBuf_length_lines:
  "length (valBuf (build_lines nfc len value lines)) = MaxVarintLen64"
  by (simp add: build_lines_def valBuf_length_loop build_init_def)

lemma scan_end_ge: "e \<le> scan_end d e"
proof (induction d e rule: scan_end.induct)
  case (1 d e)
  show ?case
  proof (cases "e < length d \<and> d ! e \<noteq> delimiter")
    case True
    with 1 have "e + 1 \<le> scan_end d (e + 1)" by simp
    with True show ?thesis by (simp add: scan_end_step)
  next
    case False
    then show ?thesis by (simp add: scan_end_stop)
  qed
qed

lemma scan_end_le: "e \<le> length d \<Longrightarrow> scan_end d e \<le> length d"
proof (induction d e rule: scan_end.induct)
  case (1 d e)
  show ?case
  proof (cases "e < length d \<and> d ! e \<noteq> delimiter")
    case True
    with 1 have "scan_end d (e + 1) \<le> length d" by simp
    with True show ?thesis by (simp add: scan_end_step)
  next
    case False
    with 1(2) show ?thesis by (simp add: scan_end_stop)
  qed
qed

lemma scan_rest_ge: "e \<le> scan_rest d e"
proof (induction d e rule: scan_rest.induct)
  case (1 d e)
  show ?case
  proof (cases "e + 1 < length d \<and> d ! (e + 1) = delimiter")
    case True
    with 1 have "e + 1 \<le> scan_rest d (e + 1)" by simp
    with True show ?thesis by (simp add: scan_rest_step)
  next
    case False
    then show ?thesis by (simp add: scan_rest_stop)
  qed
qed

lemma scan_rest_le: "e \<le> length d \<Longrightarrow> scan_rest d e \<le> length d"
proof (induction d e rule: scan_rest.induct)
  case (1 d e)
  show ?case
  proof (cases "e + 1 < length d \<and> d ! (e + 1) = delimiter")
    case True
    with 1 have "scan_rest d (e + 1) \<le> length d" by simp
    with True show ?thesis by (simp add: scan_rest_step)
  next
    case False
    with 1(2) show ?thesis by (simp add: scan_rest_stop)
  qed
qed

lemma find_end_bounds:
  "offset \<le> length d \<Longrightarrow> offset \<le> find_end d offset \<and> find_end d offset \<le> length d"
  unfolding find_end_def
  using scan_end_ge [of offset d] scan_rest_ge [of "scan_end d offset" d]
    scan_end_le [of offset d] scan_rest_le [of "scan_end d offset" d]
  by simp

text \<open>
  Claim C9. For a retained line, \<open>buildIndex\<close> appends the key, then the whole ten-byte
  slot \<open>valBuf\<close>, then the delimiter. The slot starts with the varint of the weight
  (\<open>k\<close> bytes, decoding to the weight) and its bytes from position \<open>k\<close> on are those
  the slot held before, since the slot is never cleared. \<open>indexLookup\<close> decodes the
  weight of an item from the ten bytes that end at the boundary \<open>end\<close> it has found.
\<close>

theorem weight_slot:
  "(survives len value line \<longrightarrow>
      (let st = build_lines nfc len value lines;
           st' = build_step nfc len value st line;
           k = snd (PutUvarint (valBuf st) (weight_of line))
       in buffer st' = buffer st @ nfc (Trim (key_text line)) @ valBuf st' @ [delimiter] \<and>
          length (valBuf st') = MaxVarintLen64 \<and>
          1 \<le> k \<and> k \<le> MaxVarintLen64 \<and>
          Uvarint (valBuf st') = (weight_of line, int k) \<and>
          drop k (valBuf st') = drop k (valBuf st))) \<and>
   (offset \<le> length indexData \<and> lookup_item indexData offset = Some item \<longrightarrow>
      (let e = find_end indexData offset
       in MaxVarintLen64 \<le> e \<and> e \<le> length indexData \<and>
          Value item = fst (Uvarint (take MaxVarintLen64 (drop (e - MaxVarintLen64) indexData)))))"
proof (intro conjI impI)
  assume s: "survives len value line"
  let ?st = "build_lines nfc len value lines"
  let ?w = "weight_of line"
  have l: "length (valBuf ?st) = MaxVarintLen64" by (rule valBuf_length_lines)
  have "?w < 2 ^ 32" using s by (rule weight_of_bound)
  then have w: "?w < 2 ^ 64" by simp
  have k1: "1 \<le> snd (PutUvarint (valBuf ?st) ?w)"
    using snd_PutUvarint_loop_gt [of 0 "valBuf ?st" ?w] by (simp add: PutUvarint_def)
  have k10: "snd (PutUvarint (valBuf ?st) ?w) \<le> MaxVarintLen64"
    using snd_PutUvarint_loop_le [of 0 ?w "valBuf ?st"] w
    by (simp add: PutUvarint_def MaxVarintLen64_def)
  have rt: "Uvarint (fst (PutUvarint (valBuf ?st) ?w)) = (?w, int (snd (PutUvarint (valBuf ?st) ?w)))"
    using w l by (rule Uvarint_PutUvarint)
  have dr: "drop (snd (PutUvarint (valBuf ?st) ?w)) (fst (PutUvarint (valBuf ?st) ?w))
      = drop (snd (PutUvarint (valBuf ?st) ?w)) (valBuf ?st)"
    unfolding PutUvarint_def by (rule drop_PutUvarint_loop_after) simp
  have ln: "length (fst (PutUvarint (valBuf ?st) ?w)) = MaxVarintLen64"
    using l by (simp add: PutUvarint_def length_PutUvarint_loop)
  show "let st = build_lines nfc len value lines;
           st' = build_step nfc len value st line;
           k = snd (PutUvarint (valBuf st) (weight_of line))
       in buffer st' = buffer st @ nfc (Trim (key_text line)) @ valBuf st' @ [delimiter] \<and>
          length (valBuf st') = MaxVarintLen64 \<and>
          1 \<le> k \<and> k \<le> MaxVarintLen64 \<and>
          Uvarint (valBuf st') = (weight_of line, int k) \<and>
          drop k (valBuf st') = drop k (valBuf st)"
    unfolding Let_def build_step_survives [OF s]
    using k1 k10 rt dr ln by simp
next
  assume a: "offset \<le> length indexData \<and> lookup_item indexData offset = Some item"
  let ?e = "find_end indexData offset"
  from a find_end_bounds [of offset indexData]
  have b: "offset \<le> ?e" "?e \<le> length indexData" by simp_all
  from a have ge: "\<not> ?e - offset < MaxVarintLen64"
    by (auto simp: lookup_item_def Let_def split: if_splits)
  with b have "MaxVarintLen64 \<le> ?e" by simp
  moreover from a ge have "Value item =
      fst (Uvarint (take MaxVarintLen64 (drop (?e - MaxVarintLen64) indexData)))"
    using \<open>MaxVarintLen64 \<le> ?e\<close> by (auto simp: lookup_item_def Let_def slice_def)
  ultimately show "let e = find_end indexData offset
       in MaxVarintLen64 \<le> e \<and> e \<le> length indexData \<and>
          Value item = fst (Uvarint (take MaxVarintLen64 (drop (e - MaxVarintLen64) indexData)))"
    using b by (simp add: Let_def)
qed

theorem weight_slot_witness:
  "survives 120 1000 (bytes_of ''bob'') \<and>
   valBuf (build_lines id 120 1000 [bytes_of ''alice'' @ [tab] @ bytes_of ''5000''])
     = [0x88, 0x27, 0, 0, 0, 0, 0, 0, 0, 0] \<and>
   valBuf (build_step id 120 1000
       (build_lines id 120 1000 [bytes_of ''alice'' @ [tab] @ bytes_of ''5000'']) (bytes_of ''bob''))
     = [0, 0x27, 0, 0, 0, 0, 0, 0, 0, 0] \<and>
   Uvarint (valBuf (build_step id 120 1000
       (build_lines id 120 1000 [bytes_of ''alice'' @ [tab] @ bytes_of ''5000'']) (bytes_of ''bob'')))
     = (0, 1) \<and>
   lookup_item (buffer (build_lines id 120 1000 alice_bob)) 0
     = Some \<lparr>Query = ''alice'', Value = 5000\<rparr> \<and>
   find_end (buffer (build_lines id 120 1000 alice_bob)) 0 = 15 \<and>
   fst (Uvarint (take MaxVarintLen64 (drop 5 (buffer (build_lines id 120 1000 alice_bob))))) = 5000"
proof -
  let ?lines = "[bytes_of ''alice'' @ [tab] @ bytes_of ''5000'']"
  let ?d = "buffer (build_lines id 120 1000 alice_bob)"
  have s: "survives 120 1000 (bytes_of ''bob'')"
    by (simp add: survives_eval)
  have w: "weight_of (bytes_of ''bob'') = 0"
    by (simp add: weight_of_def bytes_of_def tab_def)
  have v0: "valBuf (build_lines id 120 1000 ?lines) = [0x88, 0x27, 0, 0, 0, 0, 0, 0, 0, 0]"
    by (simp add: build_eval)
  have v1: "valBuf (build_step id 120 1000 (build_lines id 120 1000 ?lines) (bytes_of ''bob''))
      = [0, 0x27, 0, 0, 0, 0, 0, 0, 0, 0]"
    unfolding build_step_survives [OF s] w v0
    by (simp add: PutUvarint_def PutUvarint_loop_stop)
  have k: "snd (PutUvarint [0x88, 0x27, 0, 0, 0, 0, 0, 0, 0, 0] 0) = 1"
    by (simp add: PutUvarint_def PutUvarint_loop_stop)
  have i: "lookup_item ?d 0 = Some \<lparr>Query = ''alice'', Value = 5000\<rparr>"
    unfolding buffer_alice_bob by (simp add: lookup_eval)
  have e: "find_end ?d 0 = 15"
    unfolding buffer_alice_bob by (simp add: lookup_eval)
  have o: "0 \<le> length ?d" by simp
  from weight_slot [of 120 1000 "bytes_of ''bob''" id ?lines 0 ?d "\<lparr>Query = ''alice'', Value = 5000\<rparr>"]
    s i o
  have "Uvarint (valBuf (build_step id 120 1000 (build_lines id 120 1000 ?lines) (bytes_of ''bob'')))
          = (0, int (snd (PutUvarint (valBuf (build_lines id 120 1000 ?lines)) 0))) \<and>
        Value \<lparr>Query = ''alice'', Value = 5000\<rparr>
          = fst (Uvarint (take MaxVarintLen64 (drop (find_end ?d 0 - MaxVarintLen64) ?d)))"
    by (simp add: Let_def w)
  then have "Uvarint (valBuf (build_step id 120 1000 (build_lines id 120 1000 ?lines) (bytes_of ''bob'')))
          = (0, 1) \<and>
        fst (Uvarint (take MaxVarintLen64 (drop 5 ?d))) = 5000"
    unfolding e v0 k by (simp add: MaxVarintLen64_def)
  with s v0 v1 i e show ?thesis by simp
qed

end
